theory Spec2Isabelle
  imports Complex_Main "HOL-Library.Sublist"
begin

section \<open>The agent runner of \<^verbatim>\<open>src/agent/runner.py\<close>\<close>

text \<open>
  The module holds one class, \<^verbatim>\<open>AgentRunner\<close>, and one module-level helper,
  \<^verbatim>\<open>_format_history\<close>. The class talks to three collaborators that live in other
  modules: the generation agent (\<^verbatim>\<open>self.agent.run\<close>), the evaluator
  (\<^verbatim>\<open>compute_metrics\<close>) and the factory (\<^verbatim>\<open>build_agent\<close>). They are parameters
  of the model. A collaborator may keep state between its calls and may raise; so a call
  takes a world \<open>'w\<close> and returns either an exception \<open>'e\<close> (\<open>Inl\<close>) or its result with the
  next world (\<open>Inr\<close>).

  Python's \<^verbatim>\<open>str\<close> is modelled as \<open>string\<close>, \<^verbatim>\<open>int\<close> as \<open>int\<close>, an optional argument as
  an \<open>option\<close>. The judge's score and the threshold are Python floats: a finite float is the
  real number it denotes, and the infinities and NaN are values of their own.
\<close>

subsection \<open>Strings\<close>

text \<open>\<^verbatim>\<open>sub in s\<close> on strings: some suffix of \<open>s\<close> starts with \<open>sub\<close>.\<close>

fun str_in :: "string \<Rightarrow> string \<Rightarrow> bool" where
  "str_in sub [] = (sub = [])"
| "str_in sub (c # cs) = (prefix sub (c # cs) \<or> str_in sub cs)"

text \<open>
  \<^verbatim>\<open>s.lower()\<close>: the letters \<^verbatim>\<open>A\<close>..\<^verbatim>\<open>Z\<close> (codes 65..90) move to \<^verbatim>\<open>a\<close>..\<^verbatim>\<open>z\<close>, every other
  character of the model stays.
\<close>

definition lower_char :: "char \<Rightarrow> char" where
  "lower_char c =
     (if 65 \<le> (of_char c :: nat) \<and> (of_char c :: nat) \<le> 90
      then char_of ((of_char c :: nat) + 32) else c)"

definition lower :: "string \<Rightarrow> string" where
  "lower s = map lower_char s"

text \<open>\<^verbatim>\<open>sep.join(xs)\<close>.\<close>

fun join :: "string \<Rightarrow> string list \<Rightarrow> string" where
  "join sep [] = []"
| "join sep [x] = x"
| "join sep (x # y # ys) = x @ sep @ join sep (y # ys)"

text \<open>The decimal rendering of an integer by an f-string, \<^verbatim>\<open>f"{limit}"\<close>.\<close>

definition digit_char :: "nat \<Rightarrow> char" where
  "digit_char d = char_of (48 + d)"

function str_nat :: "nat \<Rightarrow> string" where
  "str_nat n = (if n < 10 then [digit_char n] else str_nat (n div 10) @ [digit_char (n mod 10)])"
  by pat_completeness auto
termination
  by (relation "measure (\<lambda>n. n)") auto

definition str_int :: "int \<Rightarrow> string" where
  "str_int i = (if i < 0 then CHR ''-'' # str_nat (nat (- i)) else str_nat (nat i))"

subsection \<open>Data\<close>

text \<open>
  A Python float. The comparison \<^verbatim>\<open>x < y\<close> is False as soon as an operand is NaN, and so
  is \<^verbatim>\<open>x >= y\<close>; the runner uses only \<^verbatim>\<open><\<close>.
\<close>

datatype pyfloat = Float real | PosInf | NegInf | NaN

fun float_lt :: "pyfloat \<Rightarrow> pyfloat \<Rightarrow> bool" where
  "float_lt NaN y = False"
| "float_lt x NaN = False"
| "float_lt (Float x) (Float y) = (x < y)"
| "float_lt x NegInf = False"
| "float_lt PosInf y = False"
| "float_lt x y = True"

fun float_ge :: "pyfloat \<Rightarrow> pyfloat \<Rightarrow> bool" where
  "float_ge NaN y = False"
| "float_ge x NaN = False"
| "float_ge (Float x) (Float y) = (y \<le> x)"
| "float_ge PosInf y = True"
| "float_ge x NegInf = True"
| "float_ge x y = False"

text \<open>The dictionary returned by \<^verbatim>\<open>compute_metrics\<close>, with the two keys the runner reads.\<close>

record metrics =
  llm_judge_score :: pyfloat
  llm_judge_reason :: string

text \<open>
  The generation agent: \<^verbatim>\<open>agent.run(prompt, deps=deps)\<close> returns an object whose
  \<^verbatim>\<open>output\<close> is the answer text, or raises.
\<close>

type_synonym ('d, 'w, 'e) agent = "string \<Rightarrow> 'd \<Rightarrow> 'w \<Rightarrow> 'e + (string \<times> 'w)"

text \<open>The evaluator: \<^verbatim>\<open>compute_metrics(question, answer)\<close>.\<close>

type_synonym ('w, 'e) evaluator = "string \<Rightarrow> string \<Rightarrow> 'w \<Rightarrow> 'e + (metrics \<times> 'w)"

record ('d, 'w, 'e) AgentRunner =
  agent :: "('d, 'w, 'e) agent"
  deps :: 'd

datatype error = ValueError string

text \<open>
  What one call of the public operation does to the outside, in order: each call of a
  collaborator with its arguments and its outcome, and each line printed.
\<close>

datatype 'e event =
    AgentRun string "'e + string"
  | ComputeMetrics string string "'e + metrics"
  | PrintMetrics metrics
  | PrintReflection string

subsection \<open>Construction\<close>

text \<open>
  \<^verbatim>\<open>AgentRunner.__init__(agent=None, deps=None)\<close>. The factory \<^verbatim>\<open>build_agent\<close> is defined
  in another module; its result is the first parameter.
\<close>

definition init ::
  "('d, 'w, 'e) agent option \<times> 'd option \<Rightarrow> ('d, 'w, 'e) agent option \<Rightarrow> 'd option
     \<Rightarrow> error + ('d, 'w, 'e) AgentRunner" where
  "init build_agent agent0 deps0 =
     (let (agent1, deps1) =
            (case (agent0, deps0) of (None, None) \<Rightarrow> build_agent | _ \<Rightarrow> (agent0, deps0))
      in case (agent1, deps1) of
           (Some a, Some d) \<Rightarrow> Inr \<lparr>agent = a, deps = d\<rparr>
         | _ \<Rightarrow> Inl (ValueError ''Both agent and deps must be provided together.''))"

subsection \<open>The prompt builder\<close>

text \<open>
  \<^verbatim>\<open>_format_history\<close>: the loop appends two lines per turn to \<^verbatim>\<open>lines\<close>; \<open>None\<close> and the
  empty sequence are both falsy.
\<close>

definition no_prior_turns :: string where
  "no_prior_turns = ''(no prior turns)''"

fun history_lines :: "string list \<Rightarrow> (string \<times> string) list \<Rightarrow> string list" where
  "history_lines lines [] = lines"
| "history_lines lines ((question, answer) # rest) =
     history_lines (lines @ [''User: '' @ question] @ [''Assistant: '' @ answer]) rest"

definition format_history :: "(string \<times> string) list option \<Rightarrow> string" where
  "format_history history =
     (case history of
        None \<Rightarrow> no_prior_turns
      | Some [] \<Rightarrow> no_prior_turns
      | Some h \<Rightarrow> join ''\<newline>'' (history_lines [] h))"

definition build_prompt :: "string \<Rightarrow> (string \<times> string) list option \<Rightarrow> int \<Rightarrow> string" where
  "build_prompt question history limit =
     (let history_text = format_history history in
      ''Conversation so far:\<newline>'' @ history_text @ ''\<newline>\<newline>'' @
      ''User question: '' @ question @ ''\<newline>'' @
      ''First call `vector_search` with query=the question text and limit='' @ str_int limit @
      '' to fetch context. '' @
      ''If vector search returns nothing useful, call `web_search` to gather public web snippets. '' @
      ''Then answer concisely using only the retrieved context. '' @
      ''If nothing relevant is returned, say 'I do not know based on the provided context.'' @ [CHR 0x27])"

subsection \<open>The reflection loop\<close>

definition reflection_prompt :: "string \<Rightarrow> string" where
  "reflection_prompt answer_text =
     ''Review the previous answer carefully: '' @ answer_text @ ''\<newline>'' @
     ''Check for factual accuracy, completeness, clarity, and consistency using only retrieved context.\<newline>'' @
     ''If there are mistakes or missing details, provide a corrected, concise answer.\<newline>'' @
     ''If nothing relevant is available, say exactly: 'I do not know based on the provided context.'' @ [CHR 0x27]"

definition max_attempts_notice :: string where
  "max_attempts_notice =
     ''[reflection] Max reflection attempts reached. Returning best-effort answer.''"

definition self_correction_notice :: string where
  "self_correction_notice =
     ''[reflection] Low confidence or ambiguity detected. Attempting self-correction...''"

text \<open>\<^verbatim>\<open>answer_text or ""\<close>: an empty (falsy) text is replaced by the empty string.\<close>

definition or_empty :: "string \<Rightarrow> string" where
  "or_empty s = (if s = [] then [] else s)"

definition low_confidence :: "metrics \<Rightarrow> pyfloat \<Rightarrow> bool" where
  "low_confidence m reflection_threshold = float_lt (llm_judge_score m) reflection_threshold"

definition ambiguous :: "metrics \<Rightarrow> bool" where
  "ambiguous m = str_in ''ambiguous'' (lower (llm_judge_reason m))"

text \<open>A run is the events it caused and its outcome; \<open>emit\<close> puts earlier events in front.\<close>

type_synonym 'e run = "'e event list \<times> ('e + string)"

definition emit :: "'e event list \<Rightarrow> 'e run \<Rightarrow> 'e run" where
  "emit evs r = (evs @ fst r, snd r)"

text \<open>
  The \<^verbatim>\<open>while attempt <= max_reflections\<close> loop of \<^verbatim>\<open>_run_agent_with_reflection\<close>, from
  the loop test on, with the loop's variables \<open>attempt\<close> and \<open>answer_text\<close> as arguments.
  Both \<^verbatim>\<open>break\<close>s and the failed loop test leave through \<^verbatim>\<open>return answer_text\<close>; an
  exception of a collaborator leaves the function at once.
\<close>

function reflection_loop ::
  "('d, 'w, 'e) AgentRunner \<Rightarrow> ('w, 'e) evaluator \<Rightarrow> string \<Rightarrow> pyfloat \<Rightarrow> int \<Rightarrow> int \<Rightarrow> string
     \<Rightarrow> 'w \<Rightarrow> 'e run" where
  "reflection_loop self compute_metrics question reflection_threshold max_reflections
       attempt answer_text w =
     (if attempt \<le> max_reflections then
        (case compute_metrics question (or_empty answer_text) w of
           Inl e \<Rightarrow> ([ComputeMetrics question (or_empty answer_text) (Inl e)], Inl e)
         | Inr (m, w1) \<Rightarrow>
             emit [ComputeMetrics question (or_empty answer_text) (Inr m), PrintMetrics m]
               (if \<not> low_confidence m reflection_threshold \<and> \<not> ambiguous m then
                  ([], Inr answer_text)
                else if attempt = max_reflections then
                  ([PrintReflection max_attempts_notice], Inr answer_text)
                else
                  emit [PrintReflection self_correction_notice]
                    (case agent self (reflection_prompt answer_text) (deps self) w1 of
                       Inl e \<Rightarrow> ([AgentRun (reflection_prompt answer_text) (Inl e)], Inl e)
                     | Inr (answer_text', w2) \<Rightarrow>
                         emit [AgentRun (reflection_prompt answer_text) (Inr answer_text')]
                           (reflection_loop self compute_metrics question reflection_threshold
                              max_reflections (attempt + 1) answer_text' w2))))
      else ([], Inr answer_text))"
  by pat_completeness auto
termination
  by (relation "measure (\<lambda>(self, cm, q, th, max_reflections, attempt, a, w).
        nat (max_reflections + 1 - attempt))") auto

definition run_agent_with_reflection ::
  "('d, 'w, 'e) AgentRunner \<Rightarrow> ('w, 'e) evaluator \<Rightarrow> string \<Rightarrow> string \<Rightarrow> pyfloat \<Rightarrow> int
     \<Rightarrow> 'w \<Rightarrow> 'e run" where
  "run_agent_with_reflection self compute_metrics prompt question reflection_threshold
       max_reflections w =
     (case agent self prompt (deps self) w of
        Inl e \<Rightarrow> ([AgentRun prompt (Inl e)], Inl e)
      | Inr (answer_text, w1) \<Rightarrow>
          emit [AgentRun prompt (Inr answer_text)]
            (reflection_loop self compute_metrics question reflection_threshold
               max_reflections 0 answer_text w1))"

text \<open>The public operation \<^verbatim>\<open>AgentRunner.answer\<close>.\<close>

definition answer ::
  "('d, 'w, 'e) AgentRunner \<Rightarrow> ('w, 'e) evaluator \<Rightarrow> string \<Rightarrow> int
     \<Rightarrow> (string \<times> string) list option \<Rightarrow> pyfloat \<Rightarrow> int \<Rightarrow> 'w \<Rightarrow> 'e run" where
  "answer self compute_metrics question limit conversation_history reflection_threshold
       max_reflections w =
     (let prompt = build_prompt question conversation_history limit
      in run_agent_with_reflection self compute_metrics prompt question reflection_threshold
           max_reflections w)"

subsection \<open>Observations on a run\<close>

text \<open>The prompts of the generation calls of a run, in order.\<close>

fun prompts :: "'e event list \<Rightarrow> string list" where
  "prompts [] = []"
| "prompts (AgentRun p res # tr) = p # prompts tr"
| "prompts (ev # tr) = prompts tr"

text \<open>The answers the generation calls returned, in order; a call that raised gives none.\<close>

fun generated :: "'e event list \<Rightarrow> string list" where
  "generated [] = []"
| "generated (AgentRun p (Inr a) # tr) = a # generated tr"
| "generated (ev # tr) = generated tr"

text \<open>The answer texts handed to the evaluator, in order.\<close>

fun evaluated :: "'e event list \<Rightarrow> string list" where
  "evaluated [] = []"
| "evaluated (ComputeMetrics q a res # tr) = a # evaluated tr"
| "evaluated (ev # tr) = evaluated tr"

text \<open>The verdicts the evaluator returned, in order.\<close>

fun verdicts :: "'e event list \<Rightarrow> metrics list" where
  "verdicts [] = []"
| "verdicts (ComputeMetrics q a (Inr m) # tr) = m # verdicts tr"
| "verdicts (ev # tr) = verdicts tr"

text \<open>A collaborator call that raised.\<close>

fun raised :: "'e event \<Rightarrow> bool" where
  "raised (AgentRun p (Inl e)) = True"
| "raised (ComputeMetrics q a (Inl e)) = True"
| "raised ev = False"

definition gen_calls :: "'e event list \<Rightarrow> nat" where
  "gen_calls tr = length (prompts tr)"

definition eval_calls :: "'e event list \<Rightarrow> nat" where
  "eval_calls tr = length (evaluated tr)"

subsection \<open>Scripted collaborators\<close>

text \<open>
  Test doubles for concrete runs: the world is the list of answers the agent has still to
  give and the list of verdicts the judge has still to give; a collaborator whose script
  has run out raises.
\<close>

type_synonym script = "string list \<times> metrics list"

definition scripted_agent :: "(unit, script, string) agent" where
  "scripted_agent prompt d w =
     (case fst w of
        [] \<Rightarrow> Inl ''agent unavailable''
      | a # rest \<Rightarrow> Inr (a, (rest, snd w)))"

definition scripted_metrics :: "(script, string) evaluator" where
  "scripted_metrics question answer_text w =
     (case snd w of
        [] \<Rightarrow> Inl ''judge unavailable''
      | m # rest \<Rightarrow> Inr (m, (fst w, rest)))"

definition scripted_runner :: "(unit, script, string) AgentRunner" where
  "scripted_runner = \<lparr>agent = scripted_agent, deps = ()\<rparr>"

text \<open>The example of the specification: a first answer judged incomplete, a second accepted.\<close>

definition capital_question :: string where
  "capital_question = ''What is the capital of France?''"

definition incomplete_verdict :: metrics where
  "incomplete_verdict = \<lparr>llm_judge_score = Float 0.5, llm_judge_reason = ''incomplete answer''\<rparr>"

definition complete_verdict :: metrics where
  "complete_verdict = \<lparr>llm_judge_score = Float 0.9, llm_judge_reason = ''complete''\<rparr>"

definition two_rounds :: script where
  "two_rounds = ([''Lyon'', ''Paris''], [incomplete_verdict, complete_verdict])"

text \<open>The verdict that sends the loop past its first \<^verbatim>\<open>break\<close>.\<close>

definition rejected :: "metrics \<Rightarrow> pyfloat \<Rightarrow> bool" where
  "rejected m reflection_threshold = (low_confidence m reflection_threshold \<or> ambiguous m)"

text \<open>A high score with a reason that says "Ambiguous", capitalised.\<close>

definition ambiguous_verdict :: metrics where
  "ambiguous_verdict = \<lparr>llm_judge_score = Float 0.9, llm_judge_reason = ''Ambiguous context''\<rparr>"

text \<open>A verdict whose score is exactly the default threshold, with a clean reason.\<close>

definition clean_threshold_verdict :: metrics where
  "clean_threshold_verdict =
     \<lparr>llm_judge_score = Float 0.8, llm_judge_reason = ''grounded in context''\<rparr>"

text \<open>A single round: the first answer is accepted.\<close>

definition one_round :: script where
  "one_round = ([''Paris''], [complete_verdict])"

text \<open>The agent answers once and is unavailable for the retry.\<close>

definition agent_gives_up :: script where
  "agent_gives_up = ([''Lyon''], [incomplete_verdict])"

text \<open>Nothing scripted: the first generation call raises.\<close>

definition nothing_scripted :: script where
  "nothing_scripted = ([], [])"


text \<open>A history of two turns.\<close>

definition two_turns :: "(string \<times> string) list" where
  "two_turns = [(''Hi'', ''Hello''), (''Where is Paris?'', ''In France'')]"

text \<open>The first answer repeats the question and is judged incomplete.\<close>

definition echo_rounds :: script where
  "echo_rounds =
     ([''What is the capital of France? Lyon.'', ''Paris''],
      [incomplete_verdict, complete_verdict])"

text \<open>A verdict whose score is NaN, with a clean reason.\<close>

definition nan_verdict :: metrics where
  "nan_verdict = \<lparr>llm_judge_score = NaN, llm_judge_reason = ''grounded in context''\<rparr>"

text \<open>\<^verbatim>\<open>text.split("\n")\<close>: the lines of a text.\<close>

fun split_lines :: "string \<Rightarrow> string list" where
  "split_lines [] = [[]]"
| "split_lines (c # cs) =
     (if c = CHR 0x0A then [] # split_lines cs
      else (case split_lines cs of [] \<Rightarrow> [[c]] | l # ls \<Rightarrow> (c # l) # ls))"

text \<open>Histories of one turn whose texts hold a newline.\<close>

definition newline_turn :: "(string \<times> string) list" where
  "newline_turn = [(''a\<newline>b'', ''c'')]"

definition forged_turn :: "(string \<times> string) list" where
  "forged_turn = [(''Hi'', ''Hello\<newline>User: Where is Paris?\<newline>Assistant: In France'')]"



declare reflection_loop.simps [simp del]

section \<open>Basic facts\<close>

lemma str_in_iff: "str_in sub s \<longleftrightarrow> sublist sub s"
  by (induction s) (auto simp: sublist_Cons_right)

lemma or_empty_id [simp]: "or_empty s = s" by (simp add: or_empty_def)

lemma prompts_append [simp]: "prompts (xs @ ys) = prompts xs @ prompts ys"
  by (induction xs rule: prompts.induct) auto
lemma generated_append [simp]: "generated (xs @ ys) = generated xs @ generated ys"
  by (induction xs rule: generated.induct) auto
lemma evaluated_append [simp]: "evaluated (xs @ ys) = evaluated xs @ evaluated ys"
  by (induction xs rule: evaluated.induct) auto
lemma verdicts_append [simp]: "verdicts (xs @ ys) = verdicts xs @ verdicts ys"
  by (induction xs rule: verdicts.induct) auto

lemma fst_emit [simp]: "fst (emit evs r) = evs @ fst r" by (simp add: emit_def)
lemma snd_emit [simp]: "snd (emit evs r) = snd r" by (simp add: emit_def)
lemma emit_pair: "emit evs (tr, out) = (evs @ tr, out)" by (simp add: emit_def)



lemma loop_exit:
  "\<not> attempt \<le> mr \<Longrightarrow> reflection_loop self cm q th mr attempt a w = ([], Inr a)"
  by (subst reflection_loop.simps) simp

lemma loop_eval_raises:
  "attempt \<le> mr \<Longrightarrow> cm q a w = Inl e \<Longrightarrow>
   reflection_loop self cm q th mr attempt a w = ([ComputeMetrics q a (Inl e)], Inl e)"
  by (subst reflection_loop.simps) simp

lemma loop_accept:
  "attempt \<le> mr \<Longrightarrow> cm q a w = Inr (m, w1) \<Longrightarrow> \<not> rejected m th \<Longrightarrow>
   reflection_loop self cm q th mr attempt a w =
     ([ComputeMetrics q a (Inr m), PrintMetrics m], Inr a)"
  by (subst reflection_loop.simps) (simp add: rejected_def emit_def)

lemma loop_exhausted:
  "cm q a w = Inr (m, w1) \<Longrightarrow> rejected m th \<Longrightarrow>
   reflection_loop self cm q th mr mr a w =
     ([ComputeMetrics q a (Inr m), PrintMetrics m, PrintReflection max_attempts_notice], Inr a)"
  by (subst reflection_loop.simps) (auto simp add: rejected_def emit_def)

lemma loop_agent_raises:
  "attempt < mr \<Longrightarrow> cm q a w = Inr (m, w1) \<Longrightarrow> rejected m th \<Longrightarrow>
   agent self (reflection_prompt a) (deps self) w1 = Inl e \<Longrightarrow>
   reflection_loop self cm q th mr attempt a w =
     ([ComputeMetrics q a (Inr m), PrintMetrics m, PrintReflection self_correction_notice,
       AgentRun (reflection_prompt a) (Inl e)], Inl e)"
  by (subst reflection_loop.simps) (auto simp add: rejected_def emit_def)

lemma loop_retry:
  "attempt < mr \<Longrightarrow> cm q a w = Inr (m, w1) \<Longrightarrow> rejected m th \<Longrightarrow>
   agent self (reflection_prompt a) (deps self) w1 = Inr (a', w2) \<Longrightarrow>
   reflection_loop self cm q th mr attempt a w =
     emit [ComputeMetrics q a (Inr m), PrintMetrics m, PrintReflection self_correction_notice,
           AgentRun (reflection_prompt a) (Inr a')]
       (reflection_loop self cm q th mr (attempt + 1) a' w2)"
  by (subst reflection_loop.simps) (auto simp add: rejected_def emit_def)

lemma loop_cases [case_names exit eval_raises accept exhausted agent_raises retry]:
  fixes attempt mr :: int
  obtains
    "\<not> attempt \<le> mr"
  | e where "attempt \<le> mr" "cm q a w = Inl e"
  | m w1 where "attempt \<le> mr" "cm q a w = Inr (m, w1)" "\<not> rejected m th"
  | m w1 where "attempt = mr" "cm q a w = Inr (m, w1)" "rejected m th"
  | m w1 e where "attempt < mr" "cm q a w = Inr (m, w1)" "rejected m th"
      "agent self (reflection_prompt a) (deps self) w1 = Inl e"
  | m w1 a' w2 where "attempt < mr" "cm q a w = Inr (m, w1)" "rejected m th"
      "agent self (reflection_prompt a) (deps self) w1 = Inr (a', w2)"
proof (cases "attempt \<le> mr")
  case False
  then show ?thesis using that(1) by blast
next
  case le: True
  show ?thesis
  proof (cases "cm q a w")
    case (Inl e)
    then show ?thesis using le that(2) by blast
  next
    case (Inr mw)
    obtain m w1 where mw: "mw = (m, w1)" by (cases mw)
    show ?thesis
    proof (cases "rejected m th")
      case False
      then show ?thesis using le Inr mw that(3) by blast
    next
      case rej: True
      show ?thesis
      proof (cases "attempt = mr")
        case True
        then show ?thesis using rej Inr mw that(4) by blast
      next
        case False
        then have lt: "attempt < mr" using le by simp
        show ?thesis
        proof (cases "agent self (reflection_prompt a) (deps self) w1")
          case (Inl e)
          then show ?thesis using lt rej Inr mw that(5) by blast
        next
          case (Inr aw)
          obtain a' w2 where "aw = (a', w2)" by (cases aw)
          then show ?thesis using lt rej \<open>cm q a w = Inr mw\<close> mw Inr that(6) by blast
        qed
      qed
    qed
  qed
qed

lemma loop_induct [consumes 0, case_names round]:
  fixes mr :: int
  assumes step: "\<And>attempt a w.
     (\<And>m w1 a' w2. attempt < mr \<Longrightarrow> cm q a w = Inr (m, w1) \<Longrightarrow> rejected m th \<Longrightarrow>
        agent self (reflection_prompt a) (deps self) w1 = Inr (a', w2) \<Longrightarrow> P (attempt + 1) a' w2)
     \<Longrightarrow> P attempt a w"
  shows "P attempt a w"
proof (induction "nat (mr - attempt)" arbitrary: attempt a w rule: less_induct)
  case less
  show ?case
  proof (rule step)
    fix m w1 a' w2
    assume "attempt < mr"
    then have "nat (mr - (attempt + 1)) < nat (mr - attempt)" by simp
    then show "P (attempt + 1) a' w2" by (rule less)
  qed
qed

lemma loop_gen_bound:
  "int (gen_calls (fst (reflection_loop self cm q th mr attempt a w))) \<le> max 0 (mr - attempt)"
proof (induction attempt a w rule: loop_induct[where mr=mr and cm=cm and q=q and th=th and self=self])
  case (round attempt a w)
  show ?case
  proof (cases rule: loop_cases[where attempt=attempt and mr=mr and cm=cm and q=q and a=a and w=w and th=th and self=self])
    case exit
    then show ?thesis by (simp add: loop_exit gen_calls_def)
  next
    case (eval_raises e)
    then show ?thesis by (simp add: loop_eval_raises gen_calls_def)
  next
    case (accept m w1)
    then show ?thesis by (simp add: loop_accept gen_calls_def)
  next
    case (exhausted m w1)
    then show ?thesis by (simp add: loop_exhausted gen_calls_def)
  next
    case (agent_raises m w1 e)
    then show ?thesis by (simp add: loop_agent_raises gen_calls_def)
  next
    case (retry m w1 a' w2)
    from round[OF retry] retry(1) show ?thesis
      by (simp add: loop_retry[where cm=cm, OF retry] gen_calls_def)
  qed
qed

lemma run_agent_raises:
  "agent self prompt (deps self) w = Inl e \<Longrightarrow>
   run_agent_with_reflection self cm prompt q th mr w = ([AgentRun prompt (Inl e)], Inl e)"
  by (simp add: run_agent_with_reflection_def)

lemma run_agent_returns:
  "agent self prompt (deps self) w = Inr (a, w1) \<Longrightarrow>
   run_agent_with_reflection self cm prompt q th mr w =
     emit [AgentRun prompt (Inr a)] (reflection_loop self cm q th mr 0 a w1)"
  by (simp add: run_agent_with_reflection_def)

lemma run_agent_cases [case_names raises returns]:
  obtains e where "agent self prompt (deps self) w = Inl e"
  | a w1 where "agent self prompt (deps self) w = Inr (a, w1)"
  by (cases "agent self prompt (deps self) w") auto

lemma sublist_map_iff:
  "sublist x (map f r) \<longleftrightarrow> (\<exists>u. sublist u r \<and> map f u = x)"
proof
  assume "sublist x (map f r)"
  then obtain ps ss where "map f r = ps @ (x @ ss)" by (auto simp: sublist_def)
  then obtain ps' rest where r: "r = ps' @ rest" and rest: "map f rest = x @ ss"
    by (metis map_eq_append_conv)
  from rest obtain u ss' where "rest = u @ ss'" and "map f u = x"
    by (metis map_eq_append_conv)
  with r have "sublist u r" by (simp add: sublist_def) blast
  with \<open>map f u = x\<close> show "\<exists>u. sublist u r \<and> map f u = x" by blast
next
  assume "\<exists>u. sublist u r \<and> map f u = x"
  then obtain u ps ss where "r = ps @ u @ ss" "map f u = x" by (auto simp: sublist_def)
  then have "map f r = map f ps @ x @ map f ss" by simp
  then show "sublist x (map f r)" unfolding sublist_def by blast
qed


lemma ambiguous_iff:
  "ambiguous m \<longleftrightarrow> (\<exists>u. sublist u (llm_judge_reason m) \<and> lower u = ''ambiguous'')"
  unfolding ambiguous_def str_in_iff lower_def by (rule sublist_map_iff)

lemma float_ge_iff: "x \<noteq> NaN \<Longrightarrow> y \<noteq> NaN \<Longrightarrow> float_ge x y \<longleftrightarrow> \<not> float_lt x y"
  by (cases x; cases y) auto

lemma float_ge_not_lt: "float_ge x y \<Longrightarrow> \<not> float_lt x y"
  by (cases x; cases y) auto

lemma rejected_iff:
  "\<not> rejected m th \<longleftrightarrow>
     \<not> float_lt (llm_judge_score m) th
     \<and> \<not> (\<exists>u. sublist u (llm_judge_reason m) \<and> lower u = ''ambiguous'')"
  unfolding rejected_def low_confidence_def ambiguous_iff[symmetric] by simp

lemma ambiguous_context_upper: "str_in ''ambiguous'' (lower ''Ambiguous context'')"
  by code_simp

lemma ambiguous_context_lower: "str_in ''ambiguous'' (lower ''ambiguous context'')"
  by code_simp

lemma complete_verdict_accepted: "\<not> rejected complete_verdict (Float 0.8)"
  unfolding rejected_def low_confidence_def ambiguous_def complete_verdict_def by code_simp


lemma loop_evaluated_generated:
  "attempt \<le> mr \<Longrightarrow>
   evaluated (fst (reflection_loop self cm q th mr attempt a w))
     = a # generated (fst (reflection_loop self cm q th mr attempt a w))"
proof (induction attempt a w rule: loop_induct[where mr=mr and cm=cm and q=q and th=th and self=self])
  case (round attempt a w)
  show ?case
  proof (cases rule: loop_cases[where attempt=attempt and mr=mr and cm=cm and q=q and a=a
            and w=w and th=th and self=self])
    case exit
    then show ?thesis using round.prems by simp
  next
    case (eval_raises e)
    then show ?thesis by (simp add: loop_eval_raises)
  next
    case (accept m w1)
    then show ?thesis by (simp add: loop_accept)
  next
    case (exhausted m w1)
    then show ?thesis by (simp add: loop_exhausted)
  next
    case (agent_raises m w1 e)
    then show ?thesis by (simp add: loop_agent_raises)
  next
    case (retry m w1 a' w2)
    from retry(1) have "attempt + 1 \<le> mr" by simp
    from round.IH[OF retry this] show ?thesis
      by (simp add: loop_retry[where cm=cm, OF retry])
  qed
qed

lemma answer_evaluated_generated:
  assumes "0 \<le> mr"
  shows "evaluated (fst (answer self cm q limit h th mr w))
           = generated (fst (answer self cm q limit h th mr w))"
proof (cases rule: run_agent_cases[where self=self and w=w and prompt="build_prompt q h limit"])
  case (raises e)
  then show ?thesis by (simp add: answer_def run_agent_raises)
next
  case (returns a w1)
  then show ?thesis
    using loop_evaluated_generated[OF assms, of self cm q th a w1]
    by (simp add: answer_def run_agent_returns[OF returns])
qed

lemma generated_all_returned:
  "\<forall>p e. AgentRun p (Inl e) \<notin> set tr \<Longrightarrow> length (generated tr) = length (prompts tr)"
proof (induction tr)
  case Nil
  then show ?case by simp
next
  case (Cons ev tr)
  then have IH: "length (generated tr) = length (prompts tr)" by simp
  show ?case
  proof (cases ev)
    case (AgentRun p res)
    with Cons.prems obtain a where "res = Inr a" by (cases res) auto
    with AgentRun IH show ?thesis by simp
  qed (simp_all add: IH)
qed

lemma loop_returns_no_raise:
  "snd (reflection_loop self cm q th mr attempt a w) = Inr s \<Longrightarrow>
   \<forall>ev \<in> set (fst (reflection_loop self cm q th mr attempt a w)). \<not> raised ev"
proof (induction attempt a w rule: loop_induct[where mr=mr and cm=cm and q=q and th=th and self=self])
  case (round attempt a w)
  show ?case
  proof (cases rule: loop_cases[where attempt=attempt and mr=mr and cm=cm and q=q and a=a
            and w=w and th=th and self=self])
    case exit
    then show ?thesis by (simp add: loop_exit)
  next
    case (eval_raises e)
    then show ?thesis using round.prems by (simp add: loop_eval_raises)
  next
    case (accept m w1)
    then show ?thesis by (simp add: loop_accept)
  next
    case (exhausted m w1)
    then show ?thesis by (simp add: loop_exhausted)
  next
    case (agent_raises m w1 e)
    then show ?thesis using round.prems by (simp add: loop_agent_raises)
  next
    case (retry m w1 a' w2)
    from round.prems have "snd (reflection_loop self cm q th mr (attempt + 1) a' w2) = Inr s"
      by (simp add: loop_retry[where cm=cm, OF retry])
    from round.IH[OF retry this] show ?thesis
      by (simp add: loop_retry[where cm=cm, OF retry])
  qed
qed

lemma answer_returns_no_raise:
  assumes "snd (answer self cm q limit h th mr w) = Inr s"
  shows "\<forall>ev \<in> set (fst (answer self cm q limit h th mr w)). \<not> raised ev"
proof (cases rule: run_agent_cases[where self=self and w=w and prompt="build_prompt q h limit"])
  case (raises e)
  then show ?thesis using assms by (simp add: answer_def run_agent_raises)
next
  case (returns a w1)
  from assms have "snd (reflection_loop self cm q th mr 0 a w1) = Inr s"
    by (simp add: answer_def run_agent_returns[OF returns])
  from loop_returns_no_raise[OF this] show ?thesis
    by (simp add: answer_def run_agent_returns[OF returns])
qed

lemma no_raise_no_agent_raise:
  "\<forall>ev \<in> set tr. \<not> raised ev \<Longrightarrow> \<forall>p e. AgentRun p (Inl e) \<notin> set tr"
  by fastforce


lemma history_lines_acc:
  "history_lines acc h
     = acc @ concat (map (\<lambda>(q, a). [''User: '' @ q, ''Assistant: '' @ a]) h)"
  by (induction h arbitrary: acc) auto

lemma history_lines_Cons:
  "history_lines [] ((q, a) # h) = [''User: '' @ q, ''Assistant: '' @ a] @ history_lines [] h"
  using history_lines_acc[of "[''User: '' @ q, ''Assistant: '' @ a]" h]
    history_lines_acc[of "[]" h]
  by simp

lemma length_history_lines: "length (history_lines [] h) = 2 * length h"
  by (induction h) (auto simp add: history_lines_Cons simp del: history_lines.simps(2))

lemma nth_history_lines:
  "i < length h \<Longrightarrow>
   history_lines [] h ! (2 * i) = ''User: '' @ fst (h ! i)
   \<and> history_lines [] h ! (2 * i + 1) = ''Assistant: '' @ snd (h ! i)"
proof (induction h arbitrary: i)
  case Nil
  then show ?case by simp
next
  case (Cons turn h)
  obtain q a where turn: "turn = (q, a)" by (cases turn)
  show ?case
  proof (cases i)
    case 0
    then show ?thesis by (simp add: turn history_lines_Cons del: history_lines.simps(2))
  next
    case (Suc j)
    with Cons.prems have "j < length h" by simp
    from Cons.IH[OF this] show ?thesis
      by (simp add: turn history_lines_Cons Suc del: history_lines.simps(2))
  qed
qed

lemma loop_prompts:
  "prompts (fst (reflection_loop self cm q th mr attempt a w))
     = map reflection_prompt
         (take (length (prompts (fst (reflection_loop self cm q th mr attempt a w))))
            (a # generated (fst (reflection_loop self cm q th mr attempt a w))))"
proof (induction attempt a w rule: loop_induct[where mr=mr and cm=cm and q=q and th=th and self=self])
  case (round attempt a w)
  show ?case
  proof (cases rule: loop_cases[where attempt=attempt and mr=mr and cm=cm and q=q and a=a
            and w=w and th=th and self=self])
    case exit
    then show ?thesis by (simp add: loop_exit)
  next
    case (eval_raises e)
    then show ?thesis by (simp add: loop_eval_raises)
  next
    case (accept m w1)
    then show ?thesis by (simp add: loop_accept)
  next
    case (exhausted m w1)
    then show ?thesis by (simp add: loop_exhausted)
  next
    case (agent_raises m w1 e)
    then show ?thesis by (simp add: loop_agent_raises)
  next
    case (retry m w1 a' w2)
    from round.IH[OF retry] show ?thesis
      by (simp add: loop_retry[where cm=cm, OF retry])
  qed
qed

lemma answer_prompts:
  "prompts (fst (answer self cm q limit h th mr w))
     = build_prompt q h limit
       # map reflection_prompt
           (take (gen_calls (fst (answer self cm q limit h th mr w)) - 1)
              (generated (fst (answer self cm q limit h th mr w))))"
proof (cases rule: run_agent_cases[where self=self and w=w and prompt="build_prompt q h limit"])
  case (raises e)
  then show ?thesis by (simp add: answer_def run_agent_raises gen_calls_def)
next
  case (returns a w1)
  then show ?thesis
    using loop_prompts[of self cm q th mr 0 a w1]
    by (simp add: answer_def run_agent_returns[OF returns] gen_calls_def)
qed

lemma sublist_embedded:
  assumes "P \<noteq> []" "last P \<notin> set t" "S \<noteq> []" "hd S \<notin> set t"
    and "\<not> sublist t P" "\<not> sublist t S"
  shows "sublist t (P @ a @ S) \<longleftrightarrow> sublist t a"
proof
  assume "sublist t a"
  then show "sublist t (P @ a @ S)"
    by (auto simp: sublist_def) (metis append.assoc)
next
  assume whole: "sublist t (P @ a @ S)"
  have right: "sublist t (a @ S)"
  proof -
    from whole consider "sublist t P" | "sublist t (a @ S)"
      | t1 t2 where "t = t1 @ t2" "suffix t1 P" "prefix t2 (a @ S)"
      unfolding sublist_append[of t P "a @ S"] by blast
    then show ?thesis
    proof cases
      case 1
      with assms(5) show ?thesis by simp
    next
      case 2
      then show ?thesis .
    next
      case 3
      show ?thesis
      proof (cases "t1 = []")
        case True
        with 3 show ?thesis by simp
      next
        case False
        from 3(2) obtain ps where "P = ps @ t1" by (auto simp: suffix_def)
        with False have "last P = last t1" by simp
        moreover have "last t1 \<in> set t" using False 3(1) by simp
        ultimately show ?thesis using assms(2) by simp
      qed
    qed
  qed
  from right consider "sublist t a" | "sublist t S"
    | t1 t2 where "t = t1 @ t2" "suffix t1 a" "prefix t2 S"
    unfolding sublist_append[of t a S] by blast
  then show "sublist t a"
  proof cases
    case 1
    then show ?thesis .
  next
    case 2
    with assms(6) show ?thesis by simp
  next
    case 3
    show ?thesis
    proof (cases "t2 = []")
      case True
      with 3 show ?thesis by simp
    next
      case False
      from 3(3) obtain ss where "S = t2 @ ss" by (auto simp: prefix_def)
      with False have "hd S = hd t2" by simp
      moreover have "hd t2 \<in> set t" using False 3(1) by simp
      ultimately show ?thesis using assms(4) by simp
    qed
  qed
qed

lemma reflection_prompt_parts:
  "reflection_prompt a = ''Review the previous answer carefully: '' @ a @
     ''\<newline>Check for factual accuracy, completeness, clarity, and consistency using only retrieved context.\<newline>If there are mistakes or missing details, provide a corrected, concise answer.\<newline>If nothing relevant is available, say exactly: 'I do not know based on the provided context.'' @ [CHR 0x27]"
  by (simp add: reflection_prompt_def)

lemma no_vector_search_intro: "\<not> sublist ''vector_search'' ''Review the previous answer carefully: ''"
  by code_simp

lemma no_web_search_intro: "\<not> sublist ''web_search'' ''Review the previous answer carefully: ''"
  by code_simp

lemma no_vector_search_instructions:
  "\<not> sublist ''vector_search'' (''\<newline>Check for factual accuracy, completeness, clarity, and consistency using only retrieved context.\<newline>If there are mistakes or missing details, provide a corrected, concise answer.\<newline>If nothing relevant is available, say exactly: 'I do not know based on the provided context.'' @ [CHR 0x27])"
  by code_simp

lemma no_web_search_instructions:
  "\<not> sublist ''web_search'' (''\<newline>Check for factual accuracy, completeness, clarity, and consistency using only retrieved context.\<newline>If there are mistakes or missing details, provide a corrected, concise answer.\<newline>If nothing relevant is available, say exactly: 'I do not know based on the provided context.'' @ [CHR 0x27])"
  by code_simp

lemma vector_search_in_prompt:
  "sublist ''vector_search'' (reflection_prompt a) \<longleftrightarrow> sublist ''vector_search'' a"
  unfolding reflection_prompt_parts
  by (rule sublist_embedded[OF _ _ _ _ no_vector_search_intro no_vector_search_instructions])
     simp_all

lemma web_search_in_prompt:
  "sublist ''web_search'' (reflection_prompt a) \<longleftrightarrow> sublist ''web_search'' a"
  unfolding reflection_prompt_parts
  by (rule sublist_embedded[OF _ _ _ _ no_web_search_intro no_web_search_instructions])
     simp_all

lemma sublist_in_suffix: "sublist x S \<Longrightarrow> sublist x (P @ a @ S)"
proof -
  assume "sublist x S"
  then obtain ps ss where "S = ps @ x @ ss" by (auto simp: sublist_def)
  then have "P @ a @ S = (P @ a @ ps) @ x @ ss" by simp
  then show ?thesis unfolding sublist_def by blast
qed

lemma checks_in_instructions:
  "sublist ''Check for factual accuracy, completeness, clarity, and consistency using only retrieved context.''
     (''\<newline>Check for factual accuracy, completeness, clarity, and consistency using only retrieved context.\<newline>If there are mistakes or missing details, provide a corrected, concise answer.\<newline>If nothing relevant is available, say exactly: 'I do not know based on the provided context.'' @ [CHR 0x27])"
  by code_simp

lemma fallback_in_instructions:
  "sublist ''say exactly: 'I do not know based on the provided context.''
     (''\<newline>Check for factual accuracy, completeness, clarity, and consistency using only retrieved context.\<newline>If there are mistakes or missing details, provide a corrected, concise answer.\<newline>If nothing relevant is available, say exactly: 'I do not know based on the provided context.'' @ [CHR 0x27])"
  by code_simp



lemma loop_rejected_longer:
  fixes attempt mr :: int
  assumes "attempt \<le> mr" and "cm q a w = Inr (m, w1)" and "rejected m th"
  shows "3 \<le> length (fst (reflection_loop self cm q th mr attempt a w))"
proof (cases "attempt = mr")
  case True
  then show ?thesis
    using loop_exhausted[where cm=cm and self=self and mr=mr, OF assms(2,3)] by simp
next
  case False
  then have lt: "attempt < mr" using assms(1) by simp
  show ?thesis
  proof (cases "agent self (reflection_prompt a) (deps self) w1")
    case (Inl e)
    then show ?thesis
      using loop_agent_raises[where cm=cm and self=self, OF lt assms(2,3)] by simp
  next
    case (Inr aw)
    obtain a' w2 where "aw = (a', w2)" by (cases aw)
    with Inr show ?thesis
      using loop_retry[where cm=cm and self=self, OF lt assms(2,3)] by simp
  qed
qed

lemma loop_accepts_iff:
  fixes attempt mr :: int
  assumes "attempt \<le> mr" and "cm q a w = Inr (m, w1)"
  shows "reflection_loop self cm q th mr attempt a w
           = ([ComputeMetrics q a (Inr m), PrintMetrics m], Inr a)
         \<longleftrightarrow> \<not> rejected m th"
proof
  assume "\<not> rejected m th"
  with assms show "reflection_loop self cm q th mr attempt a w
           = ([ComputeMetrics q a (Inr m), PrintMetrics m], Inr a)"
    by (rule loop_accept)
next
  assume run: "reflection_loop self cm q th mr attempt a w
           = ([ComputeMetrics q a (Inr m), PrintMetrics m], Inr a)"
  show "\<not> rejected m th"
  proof
    assume "rejected m th"
    from loop_rejected_longer[where cm=cm and self=self, OF assms this] run show False by simp
  qed
qed

lemma split_lines_nonempty: "split_lines s \<noteq> []"
  by (induction s) (auto split: list.splits)

lemma split_lines_plain: "CHR 0x0A \<notin> set x \<Longrightarrow> split_lines x = [x]"
  by (induction x) auto

lemma split_lines_first:
  "CHR 0x0A \<notin> set x \<Longrightarrow> split_lines (x @ CHR 0x0A # rest) = x # split_lines rest"
  by (induction x) auto

lemma split_lines_join_then:
  "xs \<noteq> [] \<Longrightarrow> \<forall>x \<in> set xs. CHR 0x0A \<notin> set x \<Longrightarrow>
   split_lines (join ''\<newline>'' xs @ CHR 0x0A # rest) = xs @ split_lines rest"
proof (induction "''\<newline>''" xs rule: join.induct)
  case 1
  then show ?case by simp
next
  case (2 x)
  then show ?case by (simp add: split_lines_first)
next
  case (3 x y ys)
  then have "split_lines (join ''\<newline>'' (y # ys) @ CHR 0x0A # rest) = (y # ys) @ split_lines rest"
    by simp
  with 3(3) show ?case
    using split_lines_first[of x "join ''\<newline>'' (y # ys) @ CHR 0x0A # rest"] by simp
qed

lemma split_lines_join:
  "xs \<noteq> [] \<Longrightarrow> \<forall>x \<in> set xs. CHR 0x0A \<notin> set x \<Longrightarrow> split_lines (join ''\<newline>'' xs) = xs"
proof (induction "''\<newline>''" xs rule: join.induct)
  case 1
  then show ?case by simp
next
  case (2 x)
  then show ?case by (simp add: split_lines_plain)
next
  case (3 x y ys)
  then have "split_lines (join ''\<newline>'' (y # ys)) = y # ys" by simp
  with 3(3) show ?case
    using split_lines_first[of x "join ''\<newline>'' (y # ys)"] by simp
qed

lemma join_Cons: "join sep (x # xs) = (if xs = [] then x else x @ sep @ join sep xs)"
  by (cases xs) auto

lemma history_lines_empty_iff: "history_lines [] h = [] \<longleftrightarrow> h = []"
  using length_history_lines[of h] by (metis length_0_conv mult_is_0 zero_neq_numeral)

lemma join_history_blocks:
  "join ''\<newline>'' (history_lines [] h)
     = join ''\<newline>'' (map (\<lambda>(q, a). ''User: '' @ q @ ''\<newline>'' @ ''Assistant: '' @ a) h)"
proof (induction h)
  case Nil
  then show ?case by simp
next
  case (Cons turn h)
  obtain q a where turn: "turn = (q, a)" by (cases turn)
  show ?case
    using Cons.IH
    by (simp add: turn history_lines_Cons join_Cons history_lines_empty_iff
          del: history_lines.simps(2))
qed

lemma history_lines_plain:
  "\<forall>(q, a) \<in> set h. CHR 0x0A \<notin> set q \<and> CHR 0x0A \<notin> set a \<Longrightarrow>
   \<forall>x \<in> set (history_lines [] h). CHR 0x0A \<notin> set x"
  by (induction h) (auto simp add: history_lines_Cons simp del: history_lines.simps(2))

lemma format_history_nonempty:
  "h \<noteq> [] \<Longrightarrow> format_history (Some h) = join ''\<newline>'' (history_lines [] h)"
  by (cases h) (simp_all add: format_history_def)

lemma build_prompt_shape:
  "\<exists>rest. build_prompt question history limit
     = ''Conversation so far:'' @ CHR 0x0A # (format_history history @ CHR 0x0A # rest)"
  by (simp add: build_prompt_def Let_def)

lemma conversation_plain: "CHR 0x0A \<notin> set ''Conversation so far:''"
  by simp

lemma placeholder_plain: "CHR 0x0A \<notin> set ''(no prior turns)''"
  by simp

lemma prompt_lines_placeholder:
  assumes "format_history history = ''(no prior turns)''"
  shows "take 2 (split_lines (build_prompt question history limit))
           = [''Conversation so far:'', ''(no prior turns)'']"
proof -
  from build_prompt_shape[of question history limit] obtain rest where
    "build_prompt question history limit
       = ''Conversation so far:'' @ CHR 0x0A # (format_history history @ CHR 0x0A # rest)"
    by (rule exE)
  then have "build_prompt question history limit
       = ''Conversation so far:'' @ CHR 0x0A # (''(no prior turns)'' @ CHR 0x0A # rest)"
    by (simp only: assms)
  then have "split_lines (build_prompt question history limit)
       = ''Conversation so far:'' # ''(no prior turns)'' # split_lines rest"
    using split_lines_first[OF conversation_plain] split_lines_first[OF placeholder_plain]
    by simp
  then show ?thesis by simp
qed

lemma prompt_lines_history:
  assumes "h \<noteq> []" and "\<forall>(q, a) \<in> set h. CHR 0x0A \<notin> set q \<and> CHR 0x0A \<notin> set a"
  shows "split_lines (format_history (Some h)) = history_lines [] h"
    and "take (1 + 2 * length h) (split_lines (build_prompt question (Some h) limit))
           = ''Conversation so far:'' # history_lines [] h"
proof -
  have ne: "history_lines [] h \<noteq> []" using assms(1) by (simp add: history_lines_empty_iff)
  note plain = history_lines_plain[OF assms(2)]
  note fmt = format_history_nonempty[OF assms(1)]
  show "split_lines (format_history (Some h)) = history_lines [] h"
    unfolding fmt using ne plain by (rule split_lines_join)
  from build_prompt_shape[of question "Some h" limit] obtain rest where
    "build_prompt question (Some h) limit
       = ''Conversation so far:'' @ CHR 0x0A # (format_history (Some h) @ CHR 0x0A # rest)"
    by (rule exE)
  then have "build_prompt question (Some h) limit
       = ''Conversation so far:'' @ CHR 0x0A # (join ''\<newline>'' (history_lines [] h) @ CHR 0x0A # rest)"
    by (simp only: fmt)
  then have "split_lines (build_prompt question (Some h) limit)
       = ''Conversation so far:'' # (history_lines [] h @ split_lines rest)"
    using split_lines_first[OF conversation_plain] split_lines_join_then[OF ne plain]
    by simp
  then show "take (1 + 2 * length h) (split_lines (build_prompt question (Some h) limit))
           = ''Conversation so far:'' # history_lines [] h"
    by (simp add: length_history_lines)
qed




section \<open>The claims\<close>

subsection \<open>C1: the number of generation calls\<close>

text \<open>
  C1. For every \<open>max_reflections \<ge> 0\<close> and every behaviour of the generation agent and of
  the evaluator (raising included), one call of \<^verbatim>\<open>answer\<close> invokes the generation agent
  at least once and at most \<open>max_reflections + 1\<close> times.
\<close>

theorem generation_calls_bounded:
  assumes "0 \<le> max_reflections"
  shows "1 \<le> gen_calls (fst (answer self cm question limit history th max_reflections w))
       \<and> int (gen_calls (fst (answer self cm question limit history th max_reflections w)))
           \<le> max_reflections + 1"
proof (cases rule: run_agent_cases[where self=self and w=w
         and prompt="build_prompt question history limit"])
  case (raises e)
  then show ?thesis using assms
    by (simp add: answer_def run_agent_raises gen_calls_def)
next
  case (returns a w1)
  have "int (gen_calls (fst (reflection_loop self cm question th max_reflections 0 a w1)))
          \<le> max_reflections"
    using loop_gen_bound[of self cm question th max_reflections 0 a w1] assms by simp
  then show ?thesis
    by (simp add: answer_def run_agent_returns[OF returns] gen_calls_def)
qed

theorem generation_calls_bounded_witness:
  "(0::int) \<le> 2
   \<and> 1 \<le> gen_calls (fst (answer scripted_runner scripted_metrics capital_question 5 None
              (Float 0.8) 2 two_rounds))
   \<and> int (gen_calls (fst (answer scripted_runner scripted_metrics capital_question 5 None
              (Float 0.8) 2 two_rounds))) \<le> 2 + 1"
  using generation_calls_bounded[of 2 scripted_runner scripted_metrics capital_question 5 None
          "Float 0.8" two_rounds]
  by simp

subsection \<open>C2: the acceptance condition\<close>

text \<open>
  C2, as amended. In a round of the loop whose evaluation returned the verdict \<open>m\<close>, the
  loop leaves through its first \<^verbatim>\<open>break\<close> (it prints the metrics and nothing more, calls
  nobody again and returns the current answer text unchanged) if and only if the test
  \<^verbatim>\<open>score < reflection_threshold\<close> is False and no part of the reason reads "ambiguous"
  once its letters are lowered. When neither the score nor the threshold is NaN, that is:
  if and only if \<^verbatim>\<open>score >= reflection_threshold\<close> and the reason is clean. The reasons
  "Ambiguous context" and "ambiguous context" are both rejected, whatever the score; a score
  equal to a threshold that is not NaN, with a clean reason, is accepted.
\<close>

theorem acceptance_condition:
  assumes "attempt \<le> max_reflections"
    and "cm question answer_text w = Inr (m, w1)"
  shows "((reflection_loop self cm question th max_reflections attempt answer_text w
            = ([ComputeMetrics question answer_text (Inr m), PrintMetrics m], Inr answer_text))
          \<longleftrightarrow> (\<not> float_lt (llm_judge_score m) th
               \<and> \<not> (\<exists>u. sublist u (llm_judge_reason m) \<and> lower u = ''ambiguous'')))
       \<and> (llm_judge_score m \<noteq> NaN \<and> th \<noteq> NaN \<longrightarrow>
            ((reflection_loop self cm question th max_reflections attempt answer_text w
               = ([ComputeMetrics question answer_text (Inr m), PrintMetrics m], Inr answer_text))
             \<longleftrightarrow> (float_ge (llm_judge_score m) th
                  \<and> \<not> (\<exists>u. sublist u (llm_judge_reason m) \<and> lower u = ''ambiguous''))))
       \<and> (llm_judge_reason m = ''Ambiguous context'' \<or> llm_judge_reason m = ''ambiguous context''
            \<longrightarrow> rejected m th)
       \<and> (llm_judge_score m = th \<and> th \<noteq> NaN \<and> \<not> ambiguous m \<longrightarrow> \<not> rejected m th)"
proof (intro conjI impI)
  show iff: "(reflection_loop self cm question th max_reflections attempt answer_text w
            = ([ComputeMetrics question answer_text (Inr m), PrintMetrics m], Inr answer_text))
          \<longleftrightarrow> (\<not> float_lt (llm_judge_score m) th
               \<and> \<not> (\<exists>u. sublist u (llm_judge_reason m) \<and> lower u = ''ambiguous''))"
    unfolding rejected_iff[symmetric] using assms by (rule loop_accepts_iff)
  assume "llm_judge_score m \<noteq> NaN \<and> th \<noteq> NaN"
  then have "float_ge (llm_judge_score m) th \<longleftrightarrow> \<not> float_lt (llm_judge_score m) th"
    by (simp add: float_ge_iff)
  with iff show "(reflection_loop self cm question th max_reflections attempt answer_text w
               = ([ComputeMetrics question answer_text (Inr m), PrintMetrics m], Inr answer_text))
             \<longleftrightarrow> (float_ge (llm_judge_score m) th
                  \<and> \<not> (\<exists>u. sublist u (llm_judge_reason m) \<and> lower u = ''ambiguous''))"
    by simp
next
  assume "llm_judge_reason m = ''Ambiguous context'' \<or> llm_judge_reason m = ''ambiguous context''"
  then have "ambiguous m"
    unfolding ambiguous_def using ambiguous_context_upper ambiguous_context_lower by auto
  then show "rejected m th" by (simp add: rejected_def)
next
  assume a: "llm_judge_score m = th \<and> th \<noteq> NaN \<and> \<not> ambiguous m"
  then have "\<not> float_lt th th" by (cases th) auto
  with a show "\<not> rejected m th" by (simp add: rejected_def low_confidence_def)
qed

theorem acceptance_condition_witness:
  "reflection_loop scripted_runner scripted_metrics capital_question (Float 0.8) 2 0 ''Paris''
      ([], [clean_threshold_verdict])
    = ([ComputeMetrics capital_question ''Paris'' (Inr clean_threshold_verdict),
        PrintMetrics clean_threshold_verdict], Inr ''Paris'')
   \<and> \<not> rejected clean_threshold_verdict (Float 0.8)
   \<and> rejected ambiguous_verdict (Float 0.8)"
proof -
  have g1: "(0::int) \<le> 2" by simp
  have g2: "scripted_metrics capital_question ''Paris'' ([], [ambiguous_verdict])
              = Inr (ambiguous_verdict, ([], []))"
    by (simp add: scripted_metrics_def)
  have g3: "llm_judge_reason ambiguous_verdict = ''Ambiguous context''"
    by (simp add: ambiguous_verdict_def)
  have amb: "rejected ambiguous_verdict (Float 0.8)"
    using acceptance_condition[where cm=scripted_metrics and self=scripted_runner
            and th="Float 0.8", OF g1 g2] g3
    by blast
  have h1: "(0::int) \<le> 2" by simp
  have h2: "scripted_metrics capital_question ''Paris'' ([], [clean_threshold_verdict])
              = Inr (clean_threshold_verdict, ([], []))"
    by (simp add: scripted_metrics_def)
  have h3: "llm_judge_score clean_threshold_verdict \<noteq> NaN \<and> Float 0.8 \<noteq> NaN"
    by (simp add: clean_threshold_verdict_def)
  have h4: "\<not> ambiguous clean_threshold_verdict"
    unfolding ambiguous_def clean_threshold_verdict_def by code_simp
  have h5: "llm_judge_score clean_threshold_verdict = Float 0.8"
    by (simp add: clean_threshold_verdict_def)
  have h6: "float_ge (llm_judge_score clean_threshold_verdict) (Float 0.8)"
    by (simp add: clean_threshold_verdict_def)
  note h7 = h4[unfolded ambiguous_iff]
  show ?thesis
    using acceptance_condition[where cm=scripted_metrics and self=scripted_runner
            and th="Float 0.8", OF h1 h2] h3 h4 h5 h6 h7 amb
    by blast
qed

text \<open>
  As stated, with "score \<^verbatim>\<open>>=\<close> threshold", C2 fails for a NaN score: neither
  \<^verbatim>\<open>score < threshold\<close> nor \<^verbatim>\<open>score >= threshold\<close> holds, and the loop, which tests the
  first, accepts the answer.
\<close>

theorem acceptance_condition_counterexample:
  "reflection_loop scripted_runner scripted_metrics capital_question (Float 0.8) 2 0 ''Paris''
      ([], [nan_verdict])
    = ([ComputeMetrics capital_question ''Paris'' (Inr nan_verdict), PrintMetrics nan_verdict],
       Inr ''Paris'')
   \<and> \<not> float_ge (llm_judge_score nan_verdict) (Float 0.8)"
  by code_simp

subsection \<open>C3: every evaluation rejects\<close>



subsection \<open>C4: a first answer that is accepted\<close>

text \<open>
  C4. For every \<open>max_reflections \<ge> 0\<close>: if the first generation call returns an answer
  and its evaluation returns a score \<^verbatim>\<open>>=\<close> the threshold with a reason in which no part
  reads "ambiguous" (letters lowered), then the run is one generation call, one evaluation
  call and the print of the metrics, and it returns that first answer verbatim.
\<close>

theorem first_answer_accepted:
  assumes "0 \<le> max_reflections"
    and "agent self (build_prompt question history limit) (deps self) w = Inr (a, w1)"
    and "cm question a w1 = Inr (m, w2)"
    and "float_ge (llm_judge_score m) th"
    and "\<not> (\<exists>u. sublist u (llm_judge_reason m) \<and> lower u = ''ambiguous'')"
  shows "answer self cm question limit history th max_reflections w
           = ([AgentRun (build_prompt question history limit) (Inr a),
               ComputeMetrics question a (Inr m), PrintMetrics m], Inr a)
       \<and> gen_calls (fst (answer self cm question limit history th max_reflections w)) = 1
       \<and> eval_calls (fst (answer self cm question limit history th max_reflections w)) = 1"
proof -
  have "\<not> rejected m th"
    using float_ge_not_lt[OF assms(4)] assms(5) unfolding rejected_iff by (rule conjI)
  then have "reflection_loop self cm question th max_reflections 0 a w1
               = ([ComputeMetrics question a (Inr m), PrintMetrics m], Inr a)"
    using assms(1,3) by (intro loop_accept)
  then have run: "answer self cm question limit history th max_reflections w
           = ([AgentRun (build_prompt question history limit) (Inr a),
               ComputeMetrics question a (Inr m), PrintMetrics m], Inr a)"
    by (simp add: answer_def run_agent_returns[OF assms(2)] emit_def)
  show ?thesis unfolding run by (simp add: gen_calls_def eval_calls_def)
qed

theorem first_answer_accepted_witness:
  "answer scripted_runner scripted_metrics capital_question 5 None (Float 0.8) 2 one_round
     = ([AgentRun (build_prompt capital_question None 5) (Inr ''Paris''),
         ComputeMetrics capital_question ''Paris'' (Inr complete_verdict),
         PrintMetrics complete_verdict], Inr ''Paris'')
   \<and> gen_calls (fst (answer scripted_runner scripted_metrics capital_question 5 None (Float 0.8) 2
        one_round)) = 1
   \<and> eval_calls (fst (answer scripted_runner scripted_metrics capital_question 5 None (Float 0.8) 2
        one_round)) = 1"
proof -
  have h1: "(0::int) \<le> 2" by simp
  have h2: "agent scripted_runner (build_prompt capital_question None 5) (deps scripted_runner)
              one_round = Inr (''Paris'', ([], [complete_verdict]))"
    by (simp add: scripted_runner_def scripted_agent_def one_round_def)
  have h3: "scripted_metrics capital_question ''Paris'' ([], [complete_verdict])
              = Inr (complete_verdict, ([], []))"
    by (simp add: scripted_metrics_def)
  have h4: "float_ge (llm_judge_score complete_verdict) (Float 0.8)"
    by (simp add: complete_verdict_def)
  have h5: "\<not> (\<exists>u. sublist u (llm_judge_reason complete_verdict) \<and> lower u = ''ambiguous'')"
    using complete_verdict_accepted unfolding rejected_iff by blast
  show ?thesis
    by (rule first_answer_accepted[where cm=scripted_metrics and self=scripted_runner,
          OF h1 h2 h3 h4 h5])
qed

subsection \<open>C5: construction\<close>

text \<open>
  C5. Constructing the runner with an agent and no dependencies, or with dependencies and
  no agent, raises \<^verbatim>\<open>ValueError\<close>; with both it succeeds and keeps them; with neither
  it takes both from the factory and succeeds when the factory returns a pair. The
  constructor is given no world to run a collaborator in: it makes no generation call.
\<close>

theorem construction_needs_both:
  "init factory (Some a) None = Inl (ValueError ''Both agent and deps must be provided together.'')
   \<and> init factory None (Some d) = Inl (ValueError ''Both agent and deps must be provided together.'')
   \<and> init factory (Some a) (Some d) = Inr \<lparr>agent = a, deps = d\<rparr>
   \<and> (factory = (Some a', Some d') \<longrightarrow> init factory None None = Inr \<lparr>agent = a', deps = d'\<rparr>)"
  by (simp add: init_def)

theorem construction_needs_both_witness:
  "init (Some scripted_agent, Some ()) None None = Inr \<lparr>agent = scripted_agent, deps = ()\<rparr>"
  using construction_needs_both[of "(Some scripted_agent, Some ())" scripted_agent "()"
          scripted_agent "()"]
  by simp

subsection \<open>C6: the history in the initial prompt\<close>

text \<open>
  C6, as amended. For every question, limit and history: when the history is absent or
  empty, the first two lines of the prompt are "Conversation so far:" and the placeholder
  "(no prior turns)". When it is not empty, the history text is one block per turn, oldest
  turn first, joined by newlines, the block of a turn being "User: " with its question, a
  newline, and "Assistant: " with its answer; and when no question or answer of the history
  holds a newline, the history text has exactly two lines per turn, lines \<open>2i\<close> and \<open>2i + 1\<close>
  being those of turn \<open>i\<close>, and they are the lines of the prompt after its first.
\<close>

theorem history_rendering:
  "format_history None = ''(no prior turns)''
   \<and> format_history (Some []) = ''(no prior turns)''
   \<and> prefix (''Conversation so far:\<newline>'' @ format_history history @ ''\<newline>\<newline>User question: ''
               @ question @ ''\<newline>'')
        (build_prompt question history limit)
   \<and> (history = None \<or> history = Some [] \<longrightarrow>
        take 2 (split_lines (build_prompt question history limit))
          = [''Conversation so far:'', ''(no prior turns)''])
   \<and> (h \<noteq> [] \<longrightarrow>
        format_history (Some h)
          = join ''\<newline>'' (map (\<lambda>(q, a). ''User: '' @ q @ ''\<newline>'' @ ''Assistant: '' @ a) h))
   \<and> (h \<noteq> [] \<and> (\<forall>(q, a) \<in> set h. CHR 0x0A \<notin> set q \<and> CHR 0x0A \<notin> set a) \<longrightarrow>
        length (split_lines (format_history (Some h))) = 2 * length h
        \<and> (\<forall>i < length h.
              split_lines (format_history (Some h)) ! (2 * i) = ''User: '' @ fst (h ! i)
              \<and> split_lines (format_history (Some h)) ! (2 * i + 1)
                  = ''Assistant: '' @ snd (h ! i))
        \<and> take (1 + 2 * length h) (split_lines (build_prompt question (Some h) limit))
            = ''Conversation so far:'' # split_lines (format_history (Some h)))"
proof (intro conjI impI)
  show none: "format_history None = ''(no prior turns)''"
    by (simp add: format_history_def no_prior_turns_def)
  show nil: "format_history (Some []) = ''(no prior turns)''"
    by (simp add: format_history_def no_prior_turns_def)
  show "prefix (''Conversation so far:\<newline>'' @ format_history history
                  @ ''\<newline>\<newline>User question: '' @ question @ ''\<newline>'')
          (build_prompt question history limit)"
    by (simp add: build_prompt_def Let_def)
  show "take 2 (split_lines (build_prompt question history limit))
          = [''Conversation so far:'', ''(no prior turns)'']"
    if "history = None \<or> history = Some []"
  proof -
    from that none nil have "format_history history = ''(no prior turns)''" by auto
    then show ?thesis by (rule prompt_lines_placeholder)
  qed
  show "format_history (Some h)
          = join ''\<newline>'' (map (\<lambda>(q, a). ''User: '' @ q @ ''\<newline>'' @ ''Assistant: '' @ a) h)"
    if "h \<noteq> []"
    using format_history_nonempty[OF that] join_history_blocks[of h] by simp
next
  assume a: "h \<noteq> [] \<and> (\<forall>(q, a) \<in> set h. CHR 0x0A \<notin> set q \<and> CHR 0x0A \<notin> set a)"
  then have ne: "h \<noteq> []"
    and plain: "\<forall>(q, a) \<in> set h. CHR 0x0A \<notin> set q \<and> CHR 0x0A \<notin> set a"
    by simp_all
  note lines = prompt_lines_history[OF ne plain]
  show "length (split_lines (format_history (Some h))) = 2 * length h"
    unfolding lines(1) by (rule length_history_lines)
  show "\<forall>i < length h.
          split_lines (format_history (Some h)) ! (2 * i) = ''User: '' @ fst (h ! i)
          \<and> split_lines (format_history (Some h)) ! (2 * i + 1) = ''Assistant: '' @ snd (h ! i)"
    unfolding lines(1) using nth_history_lines[of _ h] by blast
  show "take (1 + 2 * length h) (split_lines (build_prompt question (Some h) limit))
          = ''Conversation so far:'' # split_lines (format_history (Some h))"
    unfolding lines(1) by (rule lines(2))
qed

theorem history_rendering_witness:
  "split_lines (format_history (Some two_turns))
     = [''User: Hi'', ''Assistant: Hello'', ''User: Where is Paris?'', ''Assistant: In France'']
   \<and> take 5 (split_lines (build_prompt capital_question (Some two_turns) 5))
     = [''Conversation so far:'', ''User: Hi'', ''Assistant: Hello'', ''User: Where is Paris?'',
        ''Assistant: In France'']
   \<and> take 2 (split_lines (build_prompt capital_question None 5))
     = [''Conversation so far:'', ''(no prior turns)'']"
proof -
  have ne: "two_turns \<noteq> []" by (simp add: two_turns_def)
  have plain: "\<forall>(q, a) \<in> set two_turns. CHR 0x0A \<notin> set q \<and> CHR 0x0A \<notin> set a"
    by (simp add: two_turns_def)
  have len: "length two_turns = 2" by (simp add: two_turns_def)
  have sl: "split_lines (format_history (Some two_turns))
     = [''User: Hi'', ''Assistant: Hello'', ''User: Where is Paris?'', ''Assistant: In France'']"
    by code_simp
  note inst = history_rendering[where h=two_turns and history=None
      and question=capital_question and limit=5]
  note inst2 = history_rendering[where h=two_turns and history="Some two_turns"
      and question=capital_question and limit=5]
  have a: "take 2 (split_lines (build_prompt capital_question None 5))
     = [''Conversation so far:'', ''(no prior turns)'']"
    using inst by blast
  have "take (1 + 2 * length two_turns)
          (split_lines (build_prompt capital_question (Some two_turns) 5))
     = ''Conversation so far:'' # split_lines (format_history (Some two_turns))"
    using inst2 ne plain by blast
  then have b: "take 5 (split_lines (build_prompt capital_question (Some two_turns) 5))
     = [''Conversation so far:'', ''User: Hi'', ''Assistant: Hello'', ''User: Where is Paris?'',
        ''Assistant: In France'']"
    unfolding len sl by simp
  from sl a b show ?thesis by blast
qed

text \<open>
  As stated, for every history, C6 fails: a text of a turn is copied as it is, so a
  question holding a newline makes its turn three lines, and a single turn whose answer
  holds the lines of a further turn renders exactly as two turns do.
\<close>

theorem history_rendering_counterexample:
  "split_lines (format_history (Some newline_turn)) = [''User: a'', ''b'', ''Assistant: c'']
   \<and> length (split_lines (format_history (Some newline_turn))) = 3
   \<and> length newline_turn = 1
   \<and> format_history (Some forged_turn) = format_history (Some two_turns)
   \<and> length forged_turn = 1 \<and> length two_turns = 2"
  by code_simp

subsection \<open>C7: the corrective prompt\<close>

text \<open>
  C7, as amended. In every run the first generation call gets the initial prompt and each
  later one gets the corrective prompt built from the answer of the generation call before
  it. The corrective prompt is the fixed text "Review the previous answer carefully: ",
  the previous answer verbatim, and the fixed instructions: to check factual accuracy,
  completeness, clarity and consistency using only retrieved context, and to say exactly the
  fallback sentence when nothing relevant is available. It is built from the previous answer
  alone: neither the question nor the limit enters it, and it names \<^verbatim>\<open>vector_search\<close> or
  \<^verbatim>\<open>web_search\<close> exactly when the previous answer does.
\<close>

theorem corrective_prompt_embeds_answer:
  "prompts (fst (answer self cm question limit history th max_reflections w))
     = build_prompt question history limit
       # map reflection_prompt
           (take (gen_calls (fst (answer self cm question limit history th max_reflections w)) - 1)
              (generated (fst (answer self cm question limit history th max_reflections w))))
   \<and> reflection_prompt a = ''Review the previous answer carefully: '' @ a @
       ''\<newline>Check for factual accuracy, completeness, clarity, and consistency using only retrieved context.\<newline>If there are mistakes or missing details, provide a corrected, concise answer.\<newline>If nothing relevant is available, say exactly: 'I do not know based on the provided context.'' @ [CHR 0x27]
   \<and> sublist a (reflection_prompt a)
   \<and> sublist ''Check for factual accuracy, completeness, clarity, and consistency using only retrieved context.''
        (reflection_prompt a)
   \<and> sublist ''say exactly: 'I do not know based on the provided context.'' (reflection_prompt a)
   \<and> (sublist ''vector_search'' (reflection_prompt a) \<longleftrightarrow> sublist ''vector_search'' a)
   \<and> (sublist ''web_search'' (reflection_prompt a) \<longleftrightarrow> sublist ''web_search'' a)"
proof (intro conjI)
  show "prompts (fst (answer self cm question limit history th max_reflections w))
     = build_prompt question history limit
       # map reflection_prompt
           (take (gen_calls (fst (answer self cm question limit history th max_reflections w)) - 1)
              (generated (fst (answer self cm question limit history th max_reflections w))))"
    by (rule answer_prompts)
  show "reflection_prompt a = ''Review the previous answer carefully: '' @ a @
       ''\<newline>Check for factual accuracy, completeness, clarity, and consistency using only retrieved context.\<newline>If there are mistakes or missing details, provide a corrected, concise answer.\<newline>If nothing relevant is available, say exactly: 'I do not know based on the provided context.'' @ [CHR 0x27]"
    by (rule reflection_prompt_parts)
  show "sublist a (reflection_prompt a)"
    unfolding reflection_prompt_parts by (rule sublist_appendI)
  show "sublist ''Check for factual accuracy, completeness, clarity, and consistency using only retrieved context.''
        (reflection_prompt a)"
    unfolding reflection_prompt_parts by (rule sublist_in_suffix[OF checks_in_instructions])
  show "sublist ''say exactly: 'I do not know based on the provided context.'' (reflection_prompt a)"
    unfolding reflection_prompt_parts by (rule sublist_in_suffix[OF fallback_in_instructions])
  show "sublist ''vector_search'' (reflection_prompt a) \<longleftrightarrow> sublist ''vector_search'' a"
    by (rule vector_search_in_prompt)
  show "sublist ''web_search'' (reflection_prompt a) \<longleftrightarrow> sublist ''web_search'' a"
    by (rule web_search_in_prompt)
qed

theorem corrective_prompt_embeds_answer_witness:
  "prompts (fst (answer scripted_runner scripted_metrics capital_question 5 None (Float 0.8) 2
      two_rounds)) = [build_prompt capital_question None 5, reflection_prompt ''Lyon'']
   \<and> \<not> sublist ''vector_search'' (reflection_prompt ''Lyon'')
   \<and> \<not> sublist ''web_search'' (reflection_prompt ''Lyon'')"
proof -
  have gc: "gen_calls (fst (answer scripted_runner scripted_metrics capital_question 5 None
      (Float 0.8) 2 two_rounds)) = 2"
    by code_simp
  have gen: "generated (fst (answer scripted_runner scripted_metrics capital_question 5 None
      (Float 0.8) 2 two_rounds)) = [''Lyon'', ''Paris'']"
    by code_simp
  have v: "\<not> sublist ''vector_search'' ''Lyon''" by code_simp
  have s: "\<not> sublist ''web_search'' ''Lyon''" by code_simp
  note inst = corrective_prompt_embeds_answer[of scripted_runner scripted_metrics
      capital_question 5 None "Float 0.8" 2 two_rounds "''Lyon''"]
  have p: "prompts (fst (answer scripted_runner scripted_metrics capital_question 5 None (Float 0.8) 2
      two_rounds)) = [build_prompt capital_question None 5, reflection_prompt ''Lyon'']"
    using inst[THEN conjunct1] unfolding gc gen by simp
  have "\<not> sublist ''vector_search'' (reflection_prompt ''Lyon'')"
    and "\<not> sublist ''web_search'' (reflection_prompt ''Lyon'')"
    using inst v s by blast+
  with p show ?thesis by blast
qed

text \<open>
  As stated, C7 fails where it says that the corrective prompt does not contain the
  question text: the previous answer is embedded verbatim, and an answer that repeats the
  question carries it into the prompt of the retry.
\<close>

theorem corrective_prompt_embeds_answer_counterexample:
  "prompts (fst (answer scripted_runner scripted_metrics capital_question 5 None (Float 0.8) 2
      echo_rounds)) ! 1 = reflection_prompt ''What is the capital of France? Lyon.''
   \<and> str_in capital_question
        (prompts (fst (answer scripted_runner scripted_metrics capital_question 5 None (Float 0.8) 2
           echo_rounds)) ! 1)"
  by code_simp

subsection \<open>C8: at least one generation and one evaluation\<close>

text \<open>
  C8, as amended. Every call of \<^verbatim>\<open>answer\<close> makes at least one generation call, whatever
  the threshold and \<open>max_reflections\<close>. It makes at least one evaluation call when
  \<open>max_reflections \<ge> 0\<close> and the first generation call returned an answer.
\<close>

theorem at_least_one_generation_and_evaluation:
  "1 \<le> gen_calls (fst (answer self cm question limit history th max_reflections w))
   \<and> (0 \<le> max_reflections
        \<and> (\<exists>a. hd (fst (answer self cm question limit history th max_reflections w))
                  = AgentRun (build_prompt question history limit) (Inr a))
      \<longrightarrow> 1 \<le> eval_calls (fst (answer self cm question limit history th max_reflections w)))"
proof (cases rule: run_agent_cases[where self=self and w=w
         and prompt="build_prompt question history limit"])
  case (raises e)
  then show ?thesis by (simp add: answer_def run_agent_raises gen_calls_def)
next
  case (returns a w1)
  note unfold = run_agent_returns[OF returns]
  have "1 \<le> length (evaluated (fst (reflection_loop self cm question th max_reflections
                0 a w1)))" if "0 \<le> max_reflections"
    using loop_evaluated_generated[OF that, of self cm question th a w1] by simp
  then show ?thesis
    by (simp add: answer_def unfold gen_calls_def eval_calls_def)
qed

theorem at_least_one_generation_and_evaluation_witness:
  "1 \<le> gen_calls (fst (answer scripted_runner scripted_metrics capital_question 5 None (Float 0.8) 2
      one_round))
   \<and> 1 \<le> eval_calls (fst (answer scripted_runner scripted_metrics capital_question 5 None
      (Float 0.8) 2 one_round))"
proof -
  have h1: "(0::int) \<le> 2" by simp
  have h2: "hd (fst (answer scripted_runner scripted_metrics capital_question 5 None (Float 0.8) 2
      one_round)) = AgentRun (build_prompt capital_question None 5) (Inr ''Paris'')"
    by code_simp
  show ?thesis
    using at_least_one_generation_and_evaluation[of scripted_runner scripted_metrics
            capital_question 5 None "Float 0.8" 2 one_round] h1 h2
    by blast
qed

text \<open>
  As stated, for every configuration, C8 fails: with \<open>max_reflections = -1\<close> the loop test
  fails at once and the first answer is returned unevaluated; and when the first generation
  call raises, the exception leaves \<^verbatim>\<open>answer\<close> before any evaluation.
\<close>

theorem at_least_one_generation_and_evaluation_counterexample:
  "answer scripted_runner scripted_metrics capital_question 5 None (Float 0.8) (- 1) two_rounds
     = ([AgentRun (build_prompt capital_question None 5) (Inr ''Lyon'')], Inr ''Lyon'')
   \<and> eval_calls (fst (answer scripted_runner scripted_metrics capital_question 5 None (Float 0.8)
        (- 1) two_rounds)) = 0
   \<and> eval_calls (fst (answer scripted_runner scripted_metrics capital_question 5 None (Float 0.8)
        2 nothing_scripted)) = 0"
  by code_simp

subsection \<open>C9: an empty answer\<close>



subsection \<open>C10: evaluations and generations\<close>

text \<open>
  C10, as amended. For every \<open>max_reflections \<ge> 0\<close> and every behaviour of the
  collaborators, the texts handed to the evaluator are exactly the answers the generation
  calls returned, in the same order, each once. So the number of evaluator calls is the
  number of generation calls that returned an answer; it is the number of generation calls
  when no generation call raised, in particular whenever \<^verbatim>\<open>answer\<close> returns a string.
\<close>

theorem evaluations_match_generations:
  assumes "0 \<le> max_reflections"
  shows "evaluated (fst (answer self cm question limit history th max_reflections w))
           = generated (fst (answer self cm question limit history th max_reflections w))
       \<and> ((\<forall>p e. AgentRun p (Inl e)
               \<notin> set (fst (answer self cm question limit history th max_reflections w)))
            \<longrightarrow> eval_calls (fst (answer self cm question limit history th max_reflections w))
                  = gen_calls (fst (answer self cm question limit history th max_reflections w)))
       \<and> ((\<exists>s. snd (answer self cm question limit history th max_reflections w) = Inr s)
            \<longrightarrow> eval_calls (fst (answer self cm question limit history th max_reflections w))
                  = gen_calls (fst (answer self cm question limit history th max_reflections w)))"
proof -
  let ?tr = "fst (answer self cm question limit history th max_reflections w)"
  have eq: "evaluated ?tr = generated ?tr"
    using assms by (rule answer_evaluated_generated)
  have a: "eval_calls ?tr = gen_calls ?tr" if "\<forall>p e. AgentRun p (Inl e) \<notin> set ?tr"
    using generated_all_returned[OF that] eq by (simp add: eval_calls_def gen_calls_def)
  have b: "eval_calls ?tr = gen_calls ?tr"
    if "\<exists>s. snd (answer self cm question limit history th max_reflections w) = Inr s"
  proof -
    from that obtain s where
      "snd (answer self cm question limit history th max_reflections w) = Inr s" ..
    then have "\<forall>ev \<in> set ?tr. \<not> raised ev" by (rule answer_returns_no_raise)
    then have "\<forall>p e. AgentRun p (Inl e) \<notin> set ?tr" by (rule no_raise_no_agent_raise)
    then show ?thesis by (rule a)
  qed
  from eq a b show ?thesis by blast
qed

theorem evaluations_match_generations_witness:
  "evaluated (fst (answer scripted_runner scripted_metrics capital_question 5 None (Float 0.8) 2
      two_rounds)) = [''Lyon'', ''Paris'']
   \<and> generated (fst (answer scripted_runner scripted_metrics capital_question 5 None (Float 0.8) 2
      two_rounds)) = [''Lyon'', ''Paris'']
   \<and> eval_calls (fst (answer scripted_runner scripted_metrics capital_question 5 None (Float 0.8) 2
      two_rounds)) = 2
   \<and> gen_calls (fst (answer scripted_runner scripted_metrics capital_question 5 None (Float 0.8) 2
      two_rounds)) = 2"
proof -
  have h: "(0::int) \<le> 2" by simp
  have out: "snd (answer scripted_runner scripted_metrics capital_question 5 None (Float 0.8) 2
      two_rounds) = Inr ''Paris''"
    by code_simp
  have gen: "generated (fst (answer scripted_runner scripted_metrics capital_question 5 None
      (Float 0.8) 2 two_rounds)) = [''Lyon'', ''Paris'']"
    by code_simp
  have gc: "gen_calls (fst (answer scripted_runner scripted_metrics capital_question 5 None
      (Float 0.8) 2 two_rounds)) = 2"
    by code_simp
  show ?thesis
    using evaluations_match_generations[OF h, of scripted_runner scripted_metrics
            capital_question 5 None "Float 0.8" two_rounds] out gen gc
    by simp
qed

text \<open>
  As stated, C10 fails when a generation call raises: the call was made and nothing is
  there to evaluate. Here the agent answers once and raises on the retry.
\<close>

theorem evaluations_match_generations_counterexample:
  "gen_calls (fst (answer scripted_runner scripted_metrics capital_question 5 None (Float 0.8) 2
      agent_gives_up)) = 2
   \<and> eval_calls (fst (answer scripted_runner scripted_metrics capital_question 5 None (Float 0.8) 2
      agent_gives_up)) = 1"
  by code_simp

end
